theory Spec2Isabelle
  imports Main "HOL-Library.AList"
begin

section \<open>Data model of modem.go\<close>

text \<open>
  The Go struct \<open>Modem\<close>: three strings and the unexported integer flag \<open>ready\<close>
  (0 in the zero value, set to 1 by \<open>readDevice\<close>, compared with 1 by \<open>List\<close>).
\<close>

record Modem =
  Net :: string
  Tty :: string
  Imei :: string
  ready :: int

text \<open>The zero value of \<open>Modem\<close>, which a Go map lookup yields for an absent key.\<close>

definition zero_Modem :: Modem where
  "zero_Modem = \<lparr>Net = [], Tty = [], Imei = [], ready = 0\<rparr>"

text \<open>The struct \<open>filter\<close> (renamed: \<open>filter\<close> is taken in HOL).\<close>

record filter_t =
  vid :: string
  pid :: string

text \<open>
  A channel value as the field \<open>stopMonitor\<close> holds it: the nil channel of a fresh
  Manager, the open channel that \<open>make(chan bool)\<close> returns, or that channel after
  \<open>close\<close>. Nothing is ever sent on the channel.
\<close>

datatype chan = NilChan | OpenChan | ClosedChan

text \<open>
  The handlers are closures supplied by the caller (\<open>New\<close> installs three no-ops and
  \<open>AddHandler\<close> never stores nil), so every call site does call a closure. What a closure
  does is outside the program; the model records each invocation with its argument.
\<close>

datatype call = HandleAdd Modem | HandleUpdate Modem | HandleRemove Modem

text \<open>
  The struct \<open>Manager\<close>. The map \<open>devices\<close> is an association list read through
  \<open>map_of\<close>, so that the loops over it can be written as recursion. Below the fields of
  the struct come the effects of the program on its surroundings: the handler invocations
  so far, the number of goroutines started by \<open>go m.monitor()\<close>, the number of serial
  ports opened so far and the number of calls of \<open>mon.ReceiveDevice()\<close> so far.
\<close>

record Manager =
  filters :: "filter_t list"
  devices :: "(string \<times> Modem) list"
  stopMonitor :: chan
  monitoring :: bool
  calls :: "call list"
  workers :: nat
  opens :: nat
  recvs :: nat

definition New :: Manager where
  "New = \<lparr>filters = [], devices = [], stopMonitor = NilChan, monitoring = False,
          calls = [], workers = 0, opens = 0, recvs = 0\<rparr>"

definition AddFilter :: "string \<Rightarrow> string \<Rightarrow> Manager \<Rightarrow> Manager" where
  "AddFilter v p m = m\<lparr>filters := filters m @ [\<lparr>vid = v, pid = p\<rparr>]\<rparr>"

text \<open>
  \<open>List\<close>: a fresh map that receives every entry of \<open>devices\<close> whose flag is 1.
  The Manager is not changed.
\<close>

definition List_devices :: "Manager \<Rightarrow> (string \<times> Modem) list" where
  "List_devices m =
     fold (\<lambda>(k, v) devList. if ready v = 1 then AList.update k v devList else devList)
       (devices m) []"

section \<open>The serial transport and \<open>getImei\<close>\<close>

datatype error =
  MonitorAlreadyStarted | MonitorAlreadyStopped
  | OpenError | WriteError | ReadError | InvalidImei

text \<open>
  What one \<open>Read\<close> of the port does: it fails, or it copies the bytes that are
  available to the front of the buffer, at most as many as the buffer holds, and returns
  their number.
\<close>

datatype read_result = ReadFails | ReadGives string

text \<open>
  What the port does during one call of \<open>getImei\<close>: \<open>OpenPort\<close> fails, or \<open>Write\<close>
  fails, or the two reads happen.
\<close>

datatype serial_session = OpenFails | WriteFails | Reads read_result read_result

definition IMEILEN :: nat where
  "IMEILEN = 17"

definition read_into :: "string \<Rightarrow> string \<Rightarrow> nat \<times> string" where
  "read_into avail buf =
     (let n = min (length avail) (length buf) in (n, take n avail @ drop n buf))"

text \<open>\<open>strings.Trim(s, "\r\n ")\<close>: the cut set is ASCII, so Go trims byte by byte.\<close>

definition cutset :: "char set" where
  "cutset = {CHR 0x0D, CHR 0x0A, CHR '' ''}"

definition Trim :: "string \<Rightarrow> string" where
  "Trim s = rev (dropWhile (\<lambda>c. c \<in> cutset) (rev (dropWhile (\<lambda>c. c \<in> cutset) s)))"

text \<open>
  \<open>getImei\<close>, given what the port does. The result of the first read is dropped, but
  the bytes it wrote stay in the buffer under those of the second read.
\<close>

definition getImei :: "serial_session \<Rightarrow> error + string" where
  "getImei s =
     (case s of
        OpenFails \<Rightarrow> Inl OpenError
      | WriteFails \<Rightarrow> Inl WriteError
      | Reads r1 r2 \<Rightarrow>
          (let buf = replicate 128 (CHR 0x00);
               buf = (case r1 of ReadFails \<Rightarrow> buf | ReadGives a \<Rightarrow> snd (read_into a buf))
           in case r2 of
                ReadFails \<Rightarrow> Inl ReadError
              | ReadGives a \<Rightarrow>
                  (let (n, buf) = read_into a buf
                   in if n \<noteq> 25 then Inl InvalidImei
                      else Inr (Trim (take IMEILEN buf)))))"

text \<open>
  The serial ports of the host: what the \<open>k\<close>-th port opened by the program does, given
  the path it is opened with.
\<close>

type_synonym transport = "nat \<Rightarrow> string \<Rightarrow> serial_session"

section \<open>\<open>readDevice\<close>\<close>

text \<open>
  What \<open>readDevice\<close> reads of a \<open>udev.Device\<close>: its action, device node, system name
  and subsystem, the attribute \<open>bNumEndpoints\<close> of its grandparent, and its ancestor of
  subsystem usb and device type usb_device (none when \<open>IsNil\<close>) with the device node and
  the two attributes read of it.
\<close>

record UsbDevice =
  usbDevNode :: string
  idVendor :: string
  idProduct :: string

record Device =
  Action :: string
  DevNode :: string
  SysName :: string
  Subsystem :: string
  EPnum :: string
  UsbParent :: "UsbDevice option"

definition lookup :: "(string \<times> Modem) list \<Rightarrow> string \<Rightarrow> Modem" where
  "lookup ds k = (case map_of ds k of None \<Rightarrow> zero_Modem | Some d \<Rightarrow> d)"

definition matches :: "UsbDevice \<Rightarrow> filter_t \<Rightarrow> bool" where
  "matches par f = (idVendor par = vid f \<and> idProduct par = pid f)"

text \<open>
  The body of the loop over the filters, for a filter that matches. The five-second sleep
  before \<open>getImei\<close> on action add changes no state and is left out.
\<close>

definition tty_branch :: "transport \<Rightarrow> Device \<Rightarrow> Modem \<Rightarrow> Manager \<Rightarrow> Modem \<times> Manager" where
  "tty_branch tr dev d m =
     (let r = getImei (tr (opens m) (DevNode dev));
          m = m\<lparr>opens := opens m + 1\<rparr>;
          d = (case r of
                 Inr imei \<Rightarrow> d\<lparr>Tty := DevNode dev, Imei := imei, ready := 1\<rparr>
               | Inl err \<Rightarrow> d)
      in if Action dev \<noteq> ''update''
         then (d, m\<lparr>calls := calls m @ [HandleAdd d]\<rparr>)
         else (d, m\<lparr>calls := calls m @ [HandleUpdate d]\<rparr>))"

definition filter_body :: "transport \<Rightarrow> Device \<Rightarrow> UsbDevice \<Rightarrow> Manager \<Rightarrow> Manager" where
  "filter_body tr dev par m =
     (let d = lookup (devices m) (usbDevNode par);
          d = (if Subsystem dev = ''net'' then d\<lparr>Net := SysName dev\<rparr> else d);
          (d, m) = (if Subsystem dev = ''tty'' \<and> EPnum dev = ''03''
                    then tty_branch tr dev d m else (d, m))
      in m\<lparr>devices := AList.update (usbDevNode par) d (devices m)\<rparr>)"

fun filter_loop :: "transport \<Rightarrow> Device \<Rightarrow> UsbDevice \<Rightarrow> filter_t list \<Rightarrow> Manager \<Rightarrow> Manager" where
  "filter_loop tr dev par [] m = m"
| "filter_loop tr dev par (f # fs) m =
     filter_loop tr dev par fs (if matches par f then filter_body tr dev par m else m)"

definition readDevice :: "transport \<Rightarrow> Device \<Rightarrow> Manager \<Rightarrow> Manager" where
  "readDevice tr dev m =
     (if Action dev = ''remove''
      then (case map_of (devices m) (DevNode dev) of
              None \<Rightarrow> m
            | Some modem \<Rightarrow>
                m\<lparr>calls := calls m @ [HandleRemove modem],
                  devices := AList.delete (DevNode dev) (devices m)\<rparr>)
      else if Subsystem dev \<noteq> ''tty'' \<and> Subsystem dev \<noteq> ''net'' then m
      else (case UsbParent dev of
              None \<Rightarrow> m
            | Some par \<Rightarrow> filter_loop tr dev par (filters m) m))"

section \<open>\<open>Monitor\<close>, \<open>StopMonitor\<close> and the goroutine \<open>monitor\<close>\<close>

text \<open>
  \<open>Monitor\<close> returns an error or nil (\<open>None\<close>). No statement of the package assigns
  true to \<open>monitoring\<close>: the field is false in \<open>New\<close>, read here and in \<open>StopMonitor\<close>,
  and set to false by \<open>StopMonitor\<close>.
\<close>

definition Monitor :: "Manager \<Rightarrow> error option \<times> Manager" where
  "Monitor m =
     (if monitoring m then (Some MonitorAlreadyStarted, m)
      else (None, m\<lparr>stopMonitor := OpenChan, workers := workers m + 1\<rparr>))"

text \<open>
  \<open>StopMonitor\<close>. Closing a nil channel or a closed channel panics in Go.
\<close>

datatype 'a exec = Returns 'a | Panics

definition StopMonitor :: "Manager \<Rightarrow> (error option \<times> Manager) exec" where
  "StopMonitor m =
     (if \<not> monitoring m then Returns (Some MonitorAlreadyStopped, m)
      else if stopMonitor m \<noteq> OpenChan then Panics
      else Returns (None, m\<lparr>stopMonitor := ClosedChan, monitoring := False\<rparr>))"

text \<open>The loop \<open>for k := range m.devices { delete(m.devices, k) }\<close>.\<close>

definition clear_devices :: "(string \<times> Modem) list \<Rightarrow> (string \<times> Modem) list" where
  "clear_devices ds = fold (\<lambda>k acc. AList.delete k acc) (map fst ds) ds"

text \<open>
  What \<open>mon.ReceiveDevice()\<close> returns: a nil device or a device. The udev monitor of the
  host is the function that gives the result of the \<open>k\<close>-th call.
\<close>

datatype recv = NoDevice | Received Device

type_synonym netlink = "nat \<Rightarrow> recv"

text \<open>
  How a statement ends: normally, or by a \<open>break\<close> that its enclosing statement has to
  handle.
\<close>

datatype ctl = Normal | Break

text \<open>
  The \<open>select\<close> statement. A receive from a closed channel is always ready; a receive
  from a nil channel, or from an open channel nobody sends on, never is, and then the
  default case runs. The one-second sleep of the default case changes no state.
\<close>

definition select_stmt :: "transport \<Rightarrow> netlink \<Rightarrow> Manager \<Rightarrow> ctl \<times> Manager" where
  "select_stmt tr mon m =
     (if stopMonitor m = ClosedChan
      then (Break, m\<lparr>devices := clear_devices (devices m)\<rparr>)
      else (let d = mon (recvs m); m = m\<lparr>recvs := recvs m + 1\<rparr>
            in case d of
                 Received dev \<Rightarrow> (Normal, readDevice tr dev m)
               | NoDevice \<Rightarrow> (Normal, m)))"

text \<open>
  The body of the \<open>for\<close> loop is the \<open>select\<close> statement alone. In Go a \<open>break\<close>
  inside a \<open>select\<close> ends that \<open>select\<close>, so the body of the loop ends normally
  whichever case ran.
\<close>

definition for_body :: "transport \<Rightarrow> netlink \<Rightarrow> Manager \<Rightarrow> ctl \<times> Manager" where
  "for_body tr mon m = (case select_stmt tr mon m of (c, m') \<Rightarrow> (Normal, m'))"

text \<open>
  The loop \<open>for { ... }\<close> has no condition: it ends only when its body ends by
  \<open>break\<close>. The result is the Manager when the loop ends and \<open>None\<close> when it runs
  forever.
\<close>

partial_function (option) monitor_loop :: "transport \<Rightarrow> netlink \<Rightarrow> Manager \<Rightarrow> Manager option" where
  "monitor_loop tr mon m =
     (case for_body tr mon m of
        (Break, m') \<Rightarrow> Some m'
      | (Normal, m') \<Rightarrow> monitor_loop tr mon m')"

text \<open>
  The goroutine \<open>monitor\<close>: it returns at once when \<open>EnableReceiving\<close> fails; otherwise
  it feeds the enumerated devices to \<open>readDevice\<close> and enters the loop.
\<close>

definition enumerate_devices :: "transport \<Rightarrow> Device list \<Rightarrow> Manager \<Rightarrow> Manager" where
  "enumerate_devices tr devs m = fold (readDevice tr) devs m"

definition monitor :: "bool \<Rightarrow> Device list \<Rightarrow> transport \<Rightarrow> netlink \<Rightarrow> Manager \<Rightarrow> Manager option" where
  "monitor enable_ok devs tr mon m =
     (if \<not> enable_ok then Some m
      else monitor_loop tr mon (enumerate_devices tr devs m))"


section \<open>Operations on a Manager, and the invariant of the registry\<close>

text \<open>The handler invocation of the tty branch, as one value.\<close>

definition handler_call :: "Device \<Rightarrow> Modem \<Rightarrow> call" where
  "handler_call dev d = (if Action dev \<noteq> ''update'' then HandleAdd d else HandleUpdate d)"

text \<open>
  What can happen to a Manager: a call of one of its methods by the user, the enumeration
  at the start of the goroutine, the processing of one device, and one iteration of the
  loop of the goroutine (which processes a received device, or clears the registry once
  the channel is closed). \<open>List\<close> returns its snapshot and leaves the Manager as it is.
\<close>

datatype operation =
  CallAddFilter string string
  | CallList
  | CallMonitor
  | CallStopMonitor
  | Enumeration "Device list"
  | Event Device
  | LoopIteration

fun perform :: "transport \<Rightarrow> netlink \<Rightarrow> operation \<Rightarrow> Manager \<Rightarrow> Manager" where
  "perform tr mon (CallAddFilter v p) m = AddFilter v p m"
| "perform tr mon CallList m = m"
| "perform tr mon CallMonitor m = snd (Monitor m)"
| "perform tr mon CallStopMonitor m =
     (case StopMonitor m of Returns (e, m') \<Rightarrow> m' | Panics \<Rightarrow> m)"
| "perform tr mon (Enumeration devs) m = enumerate_devices tr devs m"
| "perform tr mon (Event dev) m = readDevice tr dev m"
| "perform tr mon LoopIteration m = snd (for_body tr mon m)"

text \<open>A record that is flagged ready has a serial port path and an identifier.\<close>

definition ready_ok :: "Modem \<Rightarrow> bool" where
  "ready_ok d = (ready d = 1 \<longrightarrow> Tty d \<noteq> [] \<and> Imei d \<noteq> [])"

definition ready_inv :: "(string \<times> Modem) list \<Rightarrow> bool" where
  "ready_inv ds = list_all (\<lambda>(k, d). ready_ok d) ds"

text \<open>
  A transport on which no retrieval succeeds on the empty path, and none succeeds with an
  empty identifier.
\<close>

definition sound_transport :: "transport \<Rightarrow> bool" where
  "sound_transport tr =
     (\<forall>k port i. getImei (tr k port) = Inr i \<longrightarrow> port \<noteq> [] \<and> i \<noteq> [])"

section \<open>Concrete devices, replies and Managers\<close>

definition crlf :: string where
  "crlf = [CHR 0x0D, CHR 0x0A]"

definition echo :: string where
  "echo = ''AT+CGSN'' @ crlf"

text \<open>The 25 bytes a modem answers to AT+CGSN, and three other answers.\<close>

definition reply_imei :: string where
  "reply_imei = crlf @ ''123456789012345'' @ crlf @ crlf @ ''OK'' @ crlf"

definition reply_26 :: string where
  "reply_26 = crlf @ ''1234567890123456'' @ crlf @ crlf @ ''OK'' @ crlf"

definition reply_10 :: string where
  "reply_10 = crlf @ ''ERROR'' @ crlf @ '' ''"

definition reply_blank :: string where
  "reply_blank = crlf @ crlf @ crlf @ crlf @ crlf @ crlf @ crlf @ crlf @ crlf @ ''ERROR'' @ crlf"

definition port_answering :: "string \<Rightarrow> transport" where
  "port_answering a k port = (if port = [] then OpenFails else Reads (ReadGives echo) (ReadGives a))"

definition huawei :: UsbDevice where
  "huawei = \<lparr>usbDevNode = ''/dev/bus/usb/001/004'', idVendor = ''12d1'', idProduct = ''1506''\<rparr>"

definition tty_event :: "string \<Rightarrow> Device" where
  "tty_event a = \<lparr>Action = a, DevNode = ''/dev/ttyUSB0'', SysName = ''ttyUSB0'',
                   Subsystem = ''tty'', EPnum = ''03'', UsbParent = Some huawei\<rparr>"

definition net_event :: "string \<Rightarrow> Device" where
  "net_event a = \<lparr>Action = a, DevNode = [], SysName = ''wwan0'',
                   Subsystem = ''net'', EPnum = ''03'', UsbParent = Some huawei\<rparr>"

definition usb_event :: "string \<Rightarrow> Device" where
  "usb_event a = \<lparr>Action = a, DevNode = ''/dev/bus/usb/001/004'', SysName = ''1-1'',
                   Subsystem = ''usb'', EPnum = [], UsbParent = None\<rparr>"

definition one_filter :: Manager where
  "one_filter = AddFilter ''12d1'' ''1506'' New"

definition two_filters :: Manager where
  "two_filters = AddFilter ''12d1'' ''1506'' (AddFilter ''12d1'' ''1506'' New)"

definition a_modem :: Modem where
  "a_modem = \<lparr>Net = [], Tty = ''/dev/ttyUSB0'', Imei = ''123456789012345'', ready = 1\<rparr>"

definition quiet :: netlink where
  "quiet k = NoDevice"

section \<open>The identifier retriever\<close>

lemma read_into_len: "fst (read_into a buf) = min (length a) (length buf)"
  by (simp add: read_into_def Let_def)

lemma read_into_length: "length (snd (read_into a buf)) = length buf"
  by (simp add: read_into_def Let_def)

lemma read_into_take:
  "k \<le> length a \<Longrightarrow> k \<le> length buf \<Longrightarrow> take k (snd (read_into a buf)) = take k a"
  by (simp add: read_into_def Let_def)

lemma first_read_length:
  "length (case r1 of ReadFails \<Rightarrow> replicate 128 c
           | ReadGives a \<Rightarrow> snd (read_into a (replicate 128 c))) = 128"
  by (cases r1) (simp_all add: read_into_length)

lemma getImei_Reads:
  "getImei (Reads r1 (ReadGives a)) =
     (if length a = 25 then Inr (Trim (take 17 a)) else Inl InvalidImei)"
proof -
  define buf where "buf = (case r1 of ReadFails \<Rightarrow> replicate 128 (CHR 0x00)
                             | ReadGives a \<Rightarrow> snd (read_into a (replicate 128 (CHR 0x00))))"
  have len: "length buf = 128"
    unfolding buf_def by (rule first_read_length)
  have g: "getImei (Reads r1 (ReadGives a)) =
             (if fst (read_into a buf) \<noteq> 25 then Inl InvalidImei
              else Inr (Trim (take IMEILEN (snd (read_into a buf)))))"
    by (simp add: getImei_def buf_def Let_def split_beta)
  show ?thesis
  proof (cases "length a = 25")
    case True
    then have "fst (read_into a buf) = 25"
      by (simp add: read_into_len len)
    moreover have "take 17 (snd (read_into a buf)) = take 17 a"
      using True len by (simp add: read_into_take)
    ultimately show ?thesis using True g by (simp add: IMEILEN_def)
  next
    case False
    then have "fst (read_into a buf) \<noteq> 25"
      by (simp add: read_into_len len min_def)
    then show ?thesis using False g by simp
  qed
qed

lemma dropWhile_all_Nil:
  assumes "\<forall>c \<in> set (dropWhile P s). P c"
  shows "dropWhile P s = []"
proof (rule ccontr)
  assume ne: "dropWhile P s \<noteq> []"
  then have "\<not> P (hd (dropWhile P s))"
    by (rule hd_dropWhile)
  moreover from ne have "hd (dropWhile P s) \<in> set (dropWhile P s)"
    by (rule hd_in_set)
  ultimately show False
    using assms by blast
qed

lemma Trim_empty_iff: "Trim s = [] \<longleftrightarrow> set s \<subseteq> cutset"
proof
  assume "Trim s = []"
  then have "dropWhile (\<lambda>c. c \<in> cutset) (rev (dropWhile (\<lambda>c. c \<in> cutset) s)) = []"
    unfolding Trim_def by (simp only: rev_is_Nil_conv)
  then have "\<forall>c \<in> set (rev (dropWhile (\<lambda>c. c \<in> cutset) s)). c \<in> cutset"
    by (rule dropWhile_eq_Nil_conv [THEN iffD1])
  then have "\<forall>c \<in> set (dropWhile (\<lambda>c. c \<in> cutset) s). c \<in> cutset"
    by (simp only: set_rev)
  then have "dropWhile (\<lambda>c. c \<in> cutset) s = []"
    by (rule dropWhile_all_Nil)
  then have "\<forall>c \<in> set s. c \<in> cutset"
    by (rule dropWhile_eq_Nil_conv [THEN iffD1])
  then show "set s \<subseteq> cutset"
    by blast
next
  assume "set s \<subseteq> cutset"
  then have "\<forall>c \<in> set s. c \<in> cutset"
    by blast
  then have e: "dropWhile (\<lambda>c. c \<in> cutset) s = []"
    by (rule dropWhile_eq_Nil_conv [THEN iffD2])
  show "Trim s = []"
    unfolding Trim_def e by simp
qed

lemma getImei_nonempty_iff:
  "(\<exists>i. getImei (Reads r1 (ReadGives a)) = Inr i \<and> i \<noteq> []) \<longleftrightarrow>
   length a = 25 \<and> \<not> set (take 17 a) \<subseteq> cutset"
  by (simp add: getImei_Reads Trim_empty_iff)

lemma getImei_errors:
  "getImei OpenFails = Inl OpenError"
  "getImei WriteFails = Inl WriteError"
  "getImei (Reads r1 ReadFails) = Inl ReadError"
  by (simp_all add: getImei_def)

lemma getImei_reply_imei:
  "getImei (Reads (ReadGives echo) (ReadGives reply_imei)) = Inr ''123456789012345''"
  by (simp add: getImei_Reads reply_imei_def crlf_def Trim_def cutset_def)

lemma getImei_reply_blank:
  "getImei (Reads (ReadGives echo) (ReadGives reply_blank)) = Inr []"
  by (simp add: getImei_Reads reply_blank_def crlf_def Trim_def cutset_def)

lemma getImei_reply_10:
  "getImei (Reads (ReadGives echo) (ReadGives reply_10)) = Inl InvalidImei"
  by (simp add: getImei_Reads reply_10_def crlf_def)

text \<open>
  C5, as the code has it. When the second read succeeds, \<open>getImei\<close> fails with
  "Invalid Imei" exactly when the number of bytes read is not 25: a longer answer is
  refused like a shorter one. An answer of exactly 25 bytes gives the first 17 of them
  with carriage returns, line feeds and spaces trimmed at both ends.
\<close>

theorem getImei_exactly_25:
  "getImei (Reads r1 (ReadGives a)) =
     (if length a \<noteq> 25 then Inl InvalidImei else Inr (Trim (take IMEILEN a)))"
  by (simp add: getImei_Reads IMEILEN_def)

theorem getImei_exactly_25_witness:
  "getImei (Reads (ReadGives echo) (ReadGives reply_imei)) = Inr ''123456789012345''"
  using getImei_exactly_25 [of "ReadGives echo" reply_imei]
  by (simp add: IMEILEN_def reply_imei_def crlf_def Trim_def cutset_def)

text \<open>
  C5 as the specification states it fails: a second read of 26 bytes is not "fewer than
  25 bytes", and the retrieval fails with "Invalid Imei".
\<close>

theorem getImei_26_bytes_refused:
  "length reply_26 = 26 \<and> \<not> length reply_26 < 25 \<and>
   getImei (Reads (ReadGives echo) (ReadGives reply_26)) = Inl InvalidImei"
  by (simp add: getImei_Reads reply_26_def crlf_def)

section \<open>Starting and stopping\<close>

lemma Monitor_keeps_flag: "monitoring (snd (Monitor m)) = monitoring m"
  by (simp add: Monitor_def)

lemma Monitor_not_running:
  "\<not> monitoring m \<Longrightarrow>
   Monitor m = (None, m\<lparr>stopMonitor := OpenChan, workers := workers m + 1\<rparr>)"
  by (simp add: Monitor_def)

lemma StopMonitor_flag_false:
  "\<not> monitoring m \<Longrightarrow> StopMonitor m = Returns (Some MonitorAlreadyStopped, m)"
  by (simp add: StopMonitor_def)

text \<open>
  C1 at the input \<open>m := New(); m.Monitor(); m.Monitor()\<close>: both calls return nil, and
  the second one starts a second goroutine.
\<close>

theorem Monitor_twice_starts_two_workers:
  "fst (Monitor New) = None \<and>
   fst (Monitor (snd (Monitor New))) = None \<and>
   workers (snd (Monitor New)) = 1 \<and>
   workers (snd (Monitor (snd (Monitor New)))) = 2"
  by (simp add: Monitor_def New_def)

text \<open>
  C2 at the input \<open>m := New(); m.Monitor(); m.StopMonitor()\<close>: the call of
  \<open>Monitor\<close> returns nil and the call of \<open>StopMonitor\<close> that follows it returns the
  error "Monitor already stopped.", leaving the channel open.
\<close>

theorem StopMonitor_after_Monitor_fails:
  "fst (Monitor New) = None \<and>
   StopMonitor (snd (Monitor New)) =
     Returns (Some MonitorAlreadyStopped, New\<lparr>stopMonitor := OpenChan, workers := 1\<rparr>)"
  by (simp add: Monitor_def StopMonitor_def New_def)

section \<open>The loop of the goroutine\<close>

lemma clear_fold:
  "fst ` set ds \<subseteq> set ks \<Longrightarrow> fold (\<lambda>k acc. AList.delete k acc) ks ds = []"
proof (induction ks arbitrary: ds)
  case Nil
  then show ?case by simp
next
  case (Cons k ks)
  have "fst ` set (AList.delete k ds) \<subseteq> set ks"
    using Cons.prems by (auto simp: AList.delete_eq)
  then show ?case using Cons.IH by simp
qed

lemma clear_devices_empty: "clear_devices ds = []"
  unfolding clear_devices_def by (rule clear_fold) simp

lemma for_body_closed:
  "stopMonitor m = ClosedChan \<Longrightarrow> for_body tr mon m = (Normal, m\<lparr>devices := []\<rparr>)"
  by (simp add: for_body_def select_stmt_def clear_devices_empty)

lemma for_body_Normal: "fst (for_body tr mon m) = Normal"
  by (simp add: for_body_def split_beta)


lemma monitor_loop_None: "monitor_loop tr mon m = None"
proof (cases "monitor_loop tr mon m")
  case None
  then show ?thesis .
next
  case (Some r)
  have False
  proof (rule monitor_loop.raw_induct [where P = "\<lambda>tr mon m r. False", OF _ Some])
    fix f :: "transport \<Rightarrow> netlink \<Rightarrow> Manager \<Rightarrow> Manager option" and tr mon m r
    assume IH: "\<And>tr mon m r. f tr mon m = Some r \<Longrightarrow> False"
      and step: "(case for_body tr mon m of
                    (Normal, m') \<Rightarrow> f tr mon m' | (Break, m') \<Rightarrow> Some m') = Some r"
    from step have "f tr mon (snd (select_stmt tr mon m)) = Some r"
      by (simp add: for_body_def split_beta)
    then show False by (rule IH)
  qed
  then show ?thesis ..
qed

lemma monitor_returns_only_on_setup_failure:
  "monitor enable_ok devs tr mon m = (if enable_ok then None else Some m)"
  by (simp add: monitor_def monitor_loop_None)


section \<open>Processing one device\<close>

lemma lookup_update_same: "lookup (AList.update k d ds) k = d"
  by (simp add: lookup_def update_conv')

lemma map_of_update_at:
  "map_of (AList.update k d ds) k' = (if k' = k then Some d else map_of ds k')"
  by (simp add: update_conv')

lemma filter_body_net:
  "Subsystem dev = ''net'' \<Longrightarrow>
   filter_body tr dev par m =
     m\<lparr>devices := AList.update (usbDevNode par)
                    ((lookup (devices m) (usbDevNode par))\<lparr>Net := SysName dev\<rparr>) (devices m)\<rparr>"
  by (simp add: filter_body_def)

lemma filter_loop_net:
  assumes "Subsystem dev = ''net''"
  shows "calls (filter_loop tr dev par fs m) = calls m \<and>
         map_of (devices (filter_loop tr dev par fs m)) k =
           (if k = usbDevNode par \<and> (\<exists>f \<in> set fs. matches par f)
            then Some ((lookup (devices m) (usbDevNode par))\<lparr>Net := SysName dev\<rparr>)
            else map_of (devices m) k)"
proof (induction fs arbitrary: m)
  case Nil
  show ?case by simp
next
  case (Cons f fs)
  show ?case
  proof (cases "matches par f")
    case False
    then show ?thesis using Cons.IH [of m] by simp
  next
    case True
    let ?m1 = "filter_body tr dev par m"
    have c: "calls ?m1 = calls m"
      by (simp add: filter_body_net [OF assms])
    have d: "map_of (devices ?m1) k' =
               (if k' = usbDevNode par
                then Some ((lookup (devices m) (usbDevNode par))\<lparr>Net := SysName dev\<rparr>)
                else map_of (devices m) k')" for k'
      by (simp add: filter_body_net [OF assms] map_of_update_at)
    have l: "lookup (devices ?m1) (usbDevNode par) =
               (lookup (devices m) (usbDevNode par))\<lparr>Net := SysName dev\<rparr>"
      by (simp add: filter_body_net [OF assms] lookup_update_same)
    show ?thesis using True Cons.IH [of ?m1] by (simp add: c d l)
  qed
qed


lemma tty_branch_fail:
  "getImei (tr (opens m) (DevNode dev)) = Inl e \<Longrightarrow>
   tty_branch tr dev d m =
     (d, m\<lparr>opens := opens m + 1, calls := calls m @ [handler_call dev d]\<rparr>)"
  by (simp add: tty_branch_def handler_call_def Let_def)

lemma tty_branch_ok:
  "getImei (tr (opens m) (DevNode dev)) = Inr i \<Longrightarrow>
   tty_branch tr dev d m =
     (d\<lparr>Tty := DevNode dev, Imei := i, ready := 1\<rparr>,
      m\<lparr>opens := opens m + 1,
        calls := calls m @ [handler_call dev (d\<lparr>Tty := DevNode dev, Imei := i, ready := 1\<rparr>)]\<rparr>)"
  by (simp add: tty_branch_def handler_call_def Let_def)


lemma filter_body_tty_ok:
  assumes "Subsystem dev = ''tty''" "EPnum dev = ''03''"
    and "getImei (tr (opens m) (DevNode dev)) = Inr i"
  shows "filter_body tr dev par m =
     m\<lparr>opens := opens m + 1,
       calls := calls m @ [handler_call dev
          ((lookup (devices m) (usbDevNode par))\<lparr>Tty := DevNode dev, Imei := i, ready := 1\<rparr>)],
       devices := AList.update (usbDevNode par)
          ((lookup (devices m) (usbDevNode par))\<lparr>Tty := DevNode dev, Imei := i, ready := 1\<rparr>)
          (devices m)\<rparr>"
  using assms by (simp add: filter_body_def tty_branch_ok Let_def)


lemma filter_loop_no_match:
  "\<forall>f \<in> set fs. \<not> matches par f \<Longrightarrow> filter_loop tr dev par fs m = m"
  by (induction fs arbitrary: m) simp_all

lemma filter_loop_one_match:
  "length (filter (matches par) fs) = 1 \<Longrightarrow>
   filter_loop tr dev par fs m = filter_body tr dev par m"
proof (induction fs arbitrary: m)
  case Nil
  then show ?case by simp
next
  case (Cons f fs)
  show ?case
  proof (cases "matches par f")
    case True
    with Cons.prems have "\<forall>g \<in> set fs. \<not> matches par g"
      by (simp add: filter_empty_conv)
    then show ?thesis using True by (simp add: filter_loop_no_match)
  next
    case False
    then show ?thesis using Cons by simp
  qed
qed



lemma tty_branch_devices: "devices (snd (tty_branch tr dev d m)) = devices m"
  by (simp add: tty_branch_def Let_def)

lemma tty_branch_monitoring: "monitoring (snd (tty_branch tr dev d m)) = monitoring m"
  by (simp add: tty_branch_def Let_def)

lemma filter_body_devices:
  "\<exists>d. devices (filter_body tr dev par m) = AList.update (usbDevNode par) d (devices m)"
  by (auto simp: filter_body_def Let_def split_beta tty_branch_devices)

lemma filter_body_monitoring: "monitoring (filter_body tr dev par m) = monitoring m"
  by (simp add: filter_body_def Let_def split_beta tty_branch_monitoring)

lemma filter_loop_monitoring: "monitoring (filter_loop tr dev par fs m) = monitoring m"
  by (induction fs arbitrary: m) (simp_all add: filter_body_monitoring)

lemma readDevice_monitoring: "monitoring (readDevice tr dev m) = monitoring m"
  by (simp add: readDevice_def filter_loop_monitoring split: option.splits)

lemma filter_loop_other_keys:
  "k \<noteq> usbDevNode par \<Longrightarrow>
   map_of (devices (filter_loop tr dev par fs m)) k = map_of (devices m) k"
proof (induction fs arbitrary: m)
  case Nil
  show ?case by simp
next
  case (Cons f fs)
  obtain d where "devices (filter_body tr dev par m) = AList.update (usbDevNode par) d (devices m)"
    using filter_body_devices by blast
  then have "map_of (devices (filter_body tr dev par m)) k = map_of (devices m) k"
    using Cons.prems by (simp add: map_of_update_at)
  then show ?case using Cons.IH [OF Cons.prems] by simp
qed



lemma tty_branch_handler:
  "calls (snd (tty_branch tr dev d m)) =
     calls m @ [handler_call dev (fst (tty_branch tr dev d m))]"
  by (simp add: tty_branch_def handler_call_def Let_def)

text \<open>What \<open>readDevice\<close> does at the concrete devices of this theory.\<close>

lemma readDevice_tty_imei:
  "readDevice (port_answering reply_imei) (tty_event a) one_filter =
     (if a = ''remove'' then one_filter
      else one_filter\<lparr>opens := 1,
             calls := [if a \<noteq> ''update'' then HandleAdd a_modem else HandleUpdate a_modem],
             devices := [(''/dev/bus/usb/001/004'', a_modem)]\<rparr>)"
  by (simp add: readDevice_def tty_event_def net_event_def one_filter_def two_filters_def
      AddFilter_def New_def huawei_def matches_def filter_body_def tty_branch_def Let_def
      lookup_def zero_Modem_def port_answering_def a_modem_def
      getImei_reply_imei getImei_reply_blank getImei_reply_10 getImei_errors)

lemma readDevice_tty_blank_twice:
  "readDevice (port_answering reply_blank) (tty_event ''add'') two_filters =
     two_filters\<lparr>opens := 2,
        calls := [HandleAdd (a_modem\<lparr>Imei := []\<rparr>), HandleAdd (a_modem\<lparr>Imei := []\<rparr>)],
        devices := [(''/dev/bus/usb/001/004'', a_modem\<lparr>Imei := []\<rparr>)]\<rparr>"
  by (simp add: readDevice_def tty_event_def net_event_def one_filter_def two_filters_def
      AddFilter_def New_def huawei_def matches_def filter_body_def tty_branch_def Let_def
      lookup_def zero_Modem_def port_answering_def a_modem_def
      getImei_reply_imei getImei_reply_blank getImei_reply_10 getImei_errors)


lemma readDevice_tty_short_once:
  "readDevice (port_answering reply_10) (tty_event ''add'') one_filter =
     one_filter\<lparr>opens := 1,
        calls := [HandleAdd zero_Modem],
        devices := [(''/dev/bus/usb/001/004'', zero_Modem)]\<rparr>"
  by (simp add: readDevice_def tty_event_def net_event_def one_filter_def two_filters_def
      AddFilter_def New_def huawei_def matches_def filter_body_def tty_branch_def Let_def
      lookup_def zero_Modem_def port_answering_def a_modem_def
      getImei_reply_imei getImei_reply_blank getImei_reply_10 getImei_errors)

text \<open>
  C4. A change event on the tty branch with endpoint count 03 invokes the add handler,
  not the update handler: the test of the code is against the action "update", and only
  an event with that action reaches the update handler.
\<close>

theorem change_event_invokes_add_handler:
  "calls (readDevice (port_answering reply_imei) (tty_event ''change'') one_filter) =
     [HandleAdd a_modem] \<and>
   calls (readDevice (port_answering reply_imei) (tty_event ''update'') one_filter) =
     [HandleUpdate a_modem]"
  by (simp add: readDevice_tty_imei)

text \<open>
  C6, for a parent that exactly one entry of the filter list matches, a device node that
  is not the empty path and a retrieval that gives an identifier that is not empty: after
  an add event on the tty branch with endpoint count 03, the record at the path of the
  parent is the former one (the zero record when there was none) with the device node as
  \<open>Tty\<close>, the identifier as \<open>Imei\<close> and \<open>ready\<close> set; and the event added one
  handler invocation, of the add handler, with that record.
\<close>

theorem tty_add_success:
  assumes "Action dev = ''add''"
    and "Subsystem dev = ''tty''"
    and "EPnum dev = ''03''"
    and "DevNode dev \<noteq> []"
    and "UsbParent dev = Some par"
    and "length (filter (matches par) (filters m)) = 1"
    and "getImei (tr (opens m) (DevNode dev)) = Inr imei"
    and "imei \<noteq> []"
  shows "(let r = (lookup (devices m) (usbDevNode par))
                    \<lparr>Tty := DevNode dev, Imei := imei, ready := 1\<rparr>;
              m' = readDevice tr dev m
          in map_of (devices m') (usbDevNode par) = Some r \<and>
             ready r = 1 \<and> Tty r \<noteq> [] \<and> Imei r \<noteq> [] \<and>
             calls m' = calls m @ [HandleAdd r])"
proof -
  have "readDevice tr dev m = filter_loop tr dev par (filters m) m"
    using assms(1,2,5) by (simp add: readDevice_def)
  also have "\<dots> = filter_body tr dev par m"
    using assms(6) by (rule filter_loop_one_match)
  finally have "readDevice tr dev m = filter_body tr dev par m" .
  then show ?thesis
    using assms(1,4,8)
    by (simp add: filter_body_tty_ok [where tr = tr and m = m and dev = dev and i = imei and par = par, OF assms(2,3,7)]
        Let_def map_of_update_at handler_call_def)
qed

theorem tty_add_success_witness:
  "Action (tty_event ''add'') = ''add'' \<and>
   length (filter (matches huawei) (filters one_filter)) = 1 \<and>
   getImei (port_answering reply_imei (opens one_filter) (DevNode (tty_event ''add''))) =
     Inr ''123456789012345'' \<and>
   map_of (devices (readDevice (port_answering reply_imei) (tty_event ''add'') one_filter))
     (usbDevNode huawei) = Some a_modem \<and>
   calls (readDevice (port_answering reply_imei) (tty_event ''add'') one_filter) =
     calls one_filter @ [HandleAdd a_modem]"
proof -
  have a: "Action (tty_event ''add'') = ''add''"
    and s: "Subsystem (tty_event ''add'') = ''tty''"
    and e: "EPnum (tty_event ''add'') = ''03''"
    and n: "DevNode (tty_event ''add'') \<noteq> []"
    and p: "UsbParent (tty_event ''add'') = Some huawei"
    by (simp_all add: tty_event_def)
  have f: "length (filter (matches huawei) (filters one_filter)) = 1"
    by (simp add: one_filter_def AddFilter_def New_def matches_def huawei_def)
  have g: "getImei (port_answering reply_imei (opens one_filter) (DevNode (tty_event ''add''))) =
             Inr ''123456789012345''"
    by (simp add: port_answering_def tty_event_def getImei_reply_imei)
  have i: "''123456789012345'' \<noteq> []"
    by simp
  have z: "lookup (devices one_filter) (usbDevNode huawei) = zero_Modem"
    by (simp add: one_filter_def AddFilter_def New_def lookup_def)
  show ?thesis
    using a f g tty_add_success [where tr = "port_answering reply_imei" and m = one_filter
        and dev = "tty_event ''add''" and par = huawei and imei = "''123456789012345''",
        OF a s e n p f g i]
    by (simp add: Let_def z zero_Modem_def a_modem_def tty_event_def)
qed

text \<open>
  C6 as stated fails when the same pair was added to the filters twice and the 25 bytes
  of the answer begin with 17 bytes of line ends: the retrieval succeeds with the empty
  identifier, the record is flagged ready with an empty \<open>Imei\<close>, and the add handler
  is invoked twice.
\<close>

theorem tty_add_blank_reply_two_filters:
  "getImei (port_answering reply_blank (opens two_filters) (DevNode (tty_event ''add''))) =
     Inr [] \<and>
   map_of (devices (readDevice (port_answering reply_blank) (tty_event ''add'') two_filters))
     (usbDevNode huawei) =
     Some \<lparr>Net = [], Tty = ''/dev/ttyUSB0'', Imei = [], ready = 1\<rparr> \<and>
   calls (readDevice (port_answering reply_blank) (tty_event ''add'') two_filters) =
     [HandleAdd \<lparr>Net = [], Tty = ''/dev/ttyUSB0'', Imei = [], ready = 1\<rparr>,
      HandleAdd \<lparr>Net = [], Tty = ''/dev/ttyUSB0'', Imei = [], ready = 1\<rparr>]"
  by (simp add: readDevice_tty_blank_twice)
    (simp add: port_answering_def tty_event_def getImei_reply_blank two_filters_def
      AddFilter_def New_def huawei_def a_modem_def)




text \<open>
  C8, for an event whose action is not "remove". A net event with a parent that matches a
  filter stores, at the path of the parent, the former record (the zero record when there
  was none) with \<open>Net\<close> set to the system name of the device; the other entries of the
  registry stay, and no handler is invoked.
\<close>

theorem net_event_sets_only_Net:
  assumes "Action dev \<noteq> ''remove''"
    and "Subsystem dev = ''net''"
    and "UsbParent dev = Some par"
    and "\<exists>f \<in> set (filters m). matches par f"
  shows "map_of (devices (readDevice tr dev m)) (usbDevNode par) =
           Some ((lookup (devices m) (usbDevNode par))\<lparr>Net := SysName dev\<rparr>) \<and>
         (\<forall>k. k \<noteq> usbDevNode par \<longrightarrow>
            map_of (devices (readDevice tr dev m)) k = map_of (devices m) k) \<and>
         calls (readDevice tr dev m) = calls m"
proof -
  have "readDevice tr dev m = filter_loop tr dev par (filters m) m"
    using assms(1,2,3) by (simp add: readDevice_def)
  then show ?thesis
    using assms(4) filter_loop_net [OF assms(2), of tr par "filters m" m]
    by (simp add: filter_loop_other_keys)
qed

theorem net_event_sets_only_Net_witness:
  "Action (net_event ''add'') \<noteq> ''remove'' \<and>
   map_of (devices (readDevice (port_answering reply_imei) (net_event ''add'')
        (one_filter\<lparr>devices := [(''/dev/bus/usb/001/004'', a_modem)]\<rparr>)))
      (usbDevNode huawei) = Some (a_modem\<lparr>Net := ''wwan0''\<rparr>) \<and>
   calls (readDevice (port_answering reply_imei) (net_event ''add'')
        (one_filter\<lparr>devices := [(''/dev/bus/usb/001/004'', a_modem)]\<rparr>)) = []"
proof -
  let ?m = "one_filter\<lparr>devices := [(''/dev/bus/usb/001/004'', a_modem)]\<rparr>"
  have a: "Action (net_event ''add'') \<noteq> ''remove''"
    and s: "Subsystem (net_event ''add'') = ''net''"
    and p: "UsbParent (net_event ''add'') = Some huawei"
    by (simp_all add: net_event_def)
  have f: "\<exists>f \<in> set (filters ?m). matches huawei f"
    by (simp add: one_filter_def AddFilter_def New_def matches_def huawei_def)
  have z: "lookup (devices ?m) (usbDevNode huawei) = a_modem"
    and c: "calls ?m = []"
    by (simp_all add: one_filter_def AddFilter_def New_def lookup_def huawei_def)
  show ?thesis
    using a net_event_sets_only_Net [OF a s p f, of "port_answering reply_imei"]
    by (simp add: z c net_event_def lookup_def huawei_def)
qed

text \<open>
  C8 as stated fails at a remove event of the net device: nothing is looked up at the
  path of the parent, and \<open>Net\<close> of the record there is not set.
\<close>

theorem net_remove_event_sets_nothing:
  "Subsystem (net_event ''remove'') = ''net'' \<and>
   matches huawei \<lparr>vid = ''12d1'', pid = ''1506''\<rparr> \<and>
   SysName (net_event ''remove'') = ''wwan0'' \<and>
   map_of (devices (readDevice (port_answering reply_imei) (net_event ''remove'')
        (one_filter\<lparr>devices := [(''/dev/bus/usb/001/004'', a_modem)]\<rparr>)))
      (usbDevNode huawei) = Some a_modem \<and>
   Net a_modem = []"
  by (simp add: readDevice_def net_event_def huawei_def matches_def a_modem_def)



section \<open>The invariant of the registry\<close>

lemma ready_ok_zero: "ready_ok zero_Modem"
  by (simp add: ready_ok_def zero_Modem_def)

lemma ready_inv_update:
  "ready_inv ds \<Longrightarrow> ready_ok d \<Longrightarrow> ready_inv (AList.update k d ds)"
  by (induction ds) (auto simp: ready_inv_def)

lemma ready_inv_delete: "ready_inv ds \<Longrightarrow> ready_inv (AList.delete k ds)"
  by (induction ds) (auto simp: ready_inv_def)

lemma ready_ok_lookup: "ready_inv ds \<Longrightarrow> ready_ok (lookup ds k)"
proof (cases "map_of ds k")
  case None
  then show ?thesis by (simp add: lookup_def ready_ok_zero)
next
  case (Some d)
  assume "ready_inv ds"
  moreover from Some have "(k, d) \<in> set ds" by (rule map_of_SomeD)
  ultimately have "ready_ok d" by (auto simp: ready_inv_def list_all_iff)
  then show ?thesis using Some by (simp add: lookup_def)
qed

lemma tty_branch_ready_ok:
  assumes "sound_transport tr" "ready_ok d"
  shows "ready_ok (fst (tty_branch tr dev d m))"
proof (cases "getImei (tr (opens m) (DevNode dev))")
  case (Inl e)
  then show ?thesis using assms(2) by (simp add: tty_branch_fail)
next
  case (Inr i)
  with assms(1) have "DevNode dev \<noteq> [] \<and> i \<noteq> []"
    unfolding sound_transport_def by blast
  then show ?thesis using Inr by (simp add: tty_branch_ok ready_ok_def)
qed

lemma filter_body_ready_inv:
  assumes "sound_transport tr" "ready_inv (devices m)"
  shows "ready_inv (devices (filter_body tr dev par m))"
proof -
  let ?d = "lookup (devices m) (usbDevNode par)"
  have d: "ready_ok ?d" using assms(2) by (rule ready_ok_lookup)
  then have n: "ready_ok (?d\<lparr>Net := SysName dev\<rparr>)" by (simp add: ready_ok_def)
  show ?thesis
    using assms d n
    by (simp add: filter_body_def Let_def split_beta tty_branch_devices
        ready_inv_update tty_branch_ready_ok)
qed

lemma filter_loop_ready_inv:
  "sound_transport tr \<Longrightarrow> ready_inv (devices m) \<Longrightarrow>
   ready_inv (devices (filter_loop tr dev par fs m))"
  by (induction fs arbitrary: m) (simp_all add: filter_body_ready_inv)

lemma readDevice_ready_inv:
  "sound_transport tr \<Longrightarrow> ready_inv (devices m) \<Longrightarrow>
   ready_inv (devices (readDevice tr dev m))"
  by (simp add: readDevice_def filter_loop_ready_inv ready_inv_delete split: option.splits)

lemma enumerate_ready_inv:
  "sound_transport tr \<Longrightarrow> ready_inv (devices m) \<Longrightarrow>
   ready_inv (devices (enumerate_devices tr devs m))"
  unfolding enumerate_devices_def
  by (induction devs arbitrary: m) (simp_all add: readDevice_ready_inv)

lemma for_body_ready_inv:
  assumes "sound_transport tr" "ready_inv (devices m)"
  shows "ready_inv (devices (snd (for_body tr mon m)))"
proof (cases "stopMonitor m = ClosedChan")
  case True
  then show ?thesis by (simp add: for_body_closed ready_inv_def)
next
  case False
  have "ready_inv (devices (readDevice tr dev (m\<lparr>recvs := recvs m + 1\<rparr>)))" for dev
    using assms by (simp add: readDevice_ready_inv)
  then show ?thesis
    using False assms(2)
    by (simp add: for_body_def select_stmt_def Let_def split: recv.splits)
qed

lemma List_fold_ready_inv:
  "ready_inv acc \<Longrightarrow> ready_inv ds \<Longrightarrow>
   ready_inv (fold (\<lambda>(k, v) devList. if ready v = 1 then AList.update k v devList else devList)
                ds acc)"
proof (induction ds arbitrary: acc)
  case Nil
  then show ?case by simp
next
  case (Cons e ds)
  obtain k v where e: "e = (k, v)" by (cases e)
  from Cons.prems(2) have v: "ready_ok v" and ds: "ready_inv ds"
    by (simp_all add: ready_inv_def e)
  have "ready_inv (if ready v = 1 then AList.update k v acc else acc)"
    using Cons.prems(1) v by (simp add: ready_inv_update)
  from Cons.IH [OF this ds] show ?case by (simp add: e)
qed

lemma List_devices_ready_inv: "ready_inv (devices m) \<Longrightarrow> ready_inv (List_devices m)"
  unfolding List_devices_def by (rule List_fold_ready_inv) (simp_all add: ready_inv_def)

text \<open>
  C9, on a transport where a retrieval that succeeds was made on a path that is not empty
  and gives an identifier that is not empty. Every operation on a Manager keeps the
  invariant: every record of the registry that is flagged ready has a serial port path
  and an identifier. The snapshot that \<open>List\<close> returns has it as well.
\<close>

theorem ready_inv_preserved:
  assumes "sound_transport tr" and "ready_inv (devices m)"
  shows "ready_inv (devices (perform tr mon op m)) \<and> ready_inv (List_devices m)"
proof (cases op)
  case CallStopMonitor
  then show ?thesis
    using assms(2) by (simp add: StopMonitor_def List_devices_ready_inv)
next
  case LoopIteration
  then show ?thesis
    using assms by (simp add: for_body_ready_inv List_devices_ready_inv)
qed (use assms in \<open>simp_all add: AddFilter_def Monitor_def enumerate_ready_inv
      readDevice_ready_inv List_devices_ready_inv\<close>)

theorem ready_inv_preserved_witness:
  "sound_transport (port_answering reply_imei) \<and>
   ready_inv (devices one_filter) \<and>
   devices (perform (port_answering reply_imei) quiet (Event (tty_event ''add'')) one_filter) =
     [(''/dev/bus/usb/001/004'', a_modem)] \<and>
   ready_inv
     (devices (perform (port_answering reply_imei) quiet (Event (tty_event ''add'')) one_filter))"
proof -
  have s: "sound_transport (port_answering reply_imei)"
    by (simp add: sound_transport_def port_answering_def getImei_reply_imei getImei_errors)
  have i: "ready_inv (devices one_filter)"
    by (simp add: one_filter_def AddFilter_def New_def ready_inv_def)
  have d: "devices (perform (port_answering reply_imei) quiet (Event (tty_event ''add''))
             one_filter) = [(''/dev/bus/usb/001/004'', a_modem)]"
    by (simp add: readDevice_tty_imei)
  show ?thesis
    using s i d ready_inv_preserved [OF s i, of quiet "Event (tty_event ''add'')"]
    by simp
qed

text \<open>
  C9 as stated fails: from a registry that has the invariant, an add event whose answer
  of 25 bytes begins with 17 bytes of line ends stores a record flagged ready with an
  empty identifier.
\<close>

theorem blank_reply_breaks_ready_inv:
  "ready_inv (devices one_filter) \<and>
   map_of (devices (readDevice (port_answering reply_blank) (tty_event ''add'') one_filter))
      ''/dev/bus/usb/001/004'' =
     Some \<lparr>Net = [], Tty = ''/dev/ttyUSB0'', Imei = [], ready = 1\<rparr> \<and>
   \<not> ready_inv (devices (readDevice (port_answering reply_blank) (tty_event ''add'') one_filter))"
  by (simp add: readDevice_def tty_event_def one_filter_def AddFilter_def New_def huawei_def
      matches_def filter_body_def tty_branch_def Let_def lookup_def zero_Modem_def
      port_answering_def getImei_reply_blank ready_inv_def ready_ok_def)

section \<open>The flag \<open>monitoring\<close>\<close>

text \<open>
  No operation sets the flag, so it is false in every state that a sequence of
  operations reaches from \<open>New\<close>: there \<open>Monitor\<close> always succeeds and
  \<open>StopMonitor\<close> always fails.
\<close>

lemma perform_monitoring:
  assumes "\<not> monitoring m"
  shows "\<not> monitoring (perform tr mon op m)"
proof (cases op)
  case (Enumeration devs)
  have "monitoring (fold (readDevice tr) devs m) = monitoring m"
    by (induction devs arbitrary: m) (simp_all add: readDevice_monitoring)
  then show ?thesis
    using assms Enumeration by (simp add: enumerate_devices_def)
next
  case LoopIteration
  then show ?thesis
    using assms
    by (simp add: for_body_def select_stmt_def Let_def readDevice_monitoring split_beta
        split: recv.splits)
qed (use assms in \<open>simp_all add: AddFilter_def Monitor_def StopMonitor_def
      readDevice_monitoring\<close>)

lemma never_monitoring: "\<not> monitoring (fold (perform tr mon) ops New)"
proof -
  have "\<not> monitoring m \<Longrightarrow> \<not> monitoring (fold (perform tr mon) ops m)" for m
    by (induction ops arbitrary: m) (simp_all add: perform_monitoring)
  then show ?thesis by (simp add: New_def)
qed

lemma Monitor_always_succeeds:
  "fst (Monitor (fold (perform tr mon) ops New)) = None"
  using never_monitoring [of tr mon ops] by (simp add: Monitor_def)

lemma StopMonitor_always_fails:
  "StopMonitor (fold (perform tr mon) ops New) =
     Returns (Some MonitorAlreadyStopped, fold (perform tr mon) ops New)"
  using never_monitoring [of tr mon ops] by (simp add: StopMonitor_def)

end
